theory Spec2Isabelle
  imports Main "HOL-Library.Word"
begin

unbundle bit_operations_syntax

section \<open>PJON v3.0: a shallow embedding of \<^verbatim>\<open>PJON.h\<close>\<close>

text \<open>
  The bus object of \<^verbatim>\<open>PJON.h\<close> is modelled by state passing. Machine integers are words of
  their C width (\<^verbatim>\<open>uint8_t\<close>, \<^verbatim>\<open>uint16_t\<close>, \<^verbatim>\<open>uint32_t\<close>); arithmetic that C performs on
  promoted \<^verbatim>\<open>int\<close>s and then stores into a narrower variable is written on the narrow word,
  which wraps in the same way.
\<close>

type_synonym u8 = "8 word"
type_synonym u16 = "16 word"
type_synonym u32 = "32 word"

subsection \<open>Constants (the \<^verbatim>\<open>#define\<close>s)\<close>

text \<open>
  The protocol symbols are C \<^verbatim>\<open>int\<close> literals that the code uses both as 16-bit return
  codes and as bytes, so they are polymorphic in the word length here.
\<close>

definition SIMPLEX :: u8 where "SIMPLEX = 150"
definition HALF_DUPLEX :: u8 where "HALF_DUPLEX = 151"

definition ACK :: "'a::len word" where "ACK = 6"
definition ACQUIRE_ID :: u8 where "ACQUIRE_ID = 63"
definition BUSY :: u16 where "BUSY = 666"
definition NAK :: "'a::len word" where "NAK = 21"

definition BROADCAST :: u8 where "BROADCAST = 0"
definition NOT_ASSIGNED :: u8 where "NOT_ASSIGNED = 255"

definition FAIL :: u16 where "FAIL = 0x100"
definition TO_BE_SENT :: u16 where "TO_BE_SENT = 74"

definition MODE_BIT :: u8 where "MODE_BIT = 1"
definition SENDER_INFO_BIT :: u8 where "SENDER_INFO_BIT = 2"
definition ACK_REQUEST_BIT :: u8 where "ACK_REQUEST_BIT = 4"

definition CONTAINS_MODE_INFO :: "u8 \<Rightarrow> bool" where
  "CONTAINS_MODE_INFO t = ((t AND MODE_BIT) \<noteq> 0)"
definition CONTAINS_SENDER_INFO :: "u8 \<Rightarrow> bool" where
  "CONTAINS_SENDER_INFO t = ((t AND SENDER_INFO_BIT) \<noteq> 0)"
definition CONTAINS_ACK_REQUEST :: "u8 \<Rightarrow> bool" where
  "CONTAINS_ACK_REQUEST t = ((t AND ACK_REQUEST_BIT) \<noteq> 0)"

definition CONNECTION_LOST :: u8 where "CONNECTION_LOST = 101"
definition PACKETS_BUFFER_FULL :: u8 where "PACKETS_BUFFER_FULL = 102"
definition MEMORY_FULL :: u8 where "MEMORY_FULL = 103"
definition CONTENT_TOO_LONG :: u8 where "CONTENT_TOO_LONG = 104"
definition ID_ACQUISITION_FAIL :: u8 where "ID_ACQUISITION_FAIL = 105"

definition MAX_ATTEMPTS :: nat where "MAX_ATTEMPTS = 125"
definition MAX_PACKETS :: nat where "MAX_PACKETS = 10"
definition PACKET_MAX_LENGTH :: nat where "PACKET_MAX_LENGTH = 50"
definition COLLISION_MAX_DELAY :: nat where "COLLISION_MAX_DELAY = 16"

subsection \<open>\<^verbatim>\<open>compute_crc_8\<close>\<close>

text \<open>
  \<^verbatim>\<open>for (uint8_t i = 8; i; i--, input_byte >>= 1)\<close>: the counter runs from 8 down to 0.
  \<^verbatim>\<open>crc\<close> is a \<^verbatim>\<open>uint8_t\<close>, so \<^verbatim>\<open>crc >>= 1\<close> is a logical shift. \<^verbatim>\<open>input_byte\<close> is a
  \<^verbatim>\<open>char\<close>, which is signed on the AVR targets of the library, so its shift is the
  arithmetic one; \<open>crc_loop_unsigned\<close> is the same loop for a target whose \<^verbatim>\<open>char\<close> is
  unsigned.
\<close>

fun crc_loop :: "nat \<Rightarrow> u8 \<Rightarrow> u8 \<Rightarrow> u8" where
  "crc_loop 0 input_byte crc = crc"
| "crc_loop (Suc i) input_byte crc =
     (let result = (crc XOR input_byte) AND 0x01;
          crc1 = drop_bit 1 crc;
          crc2 = (if result \<noteq> 0 then crc1 XOR 0x8C else crc1)
      in crc_loop i (signed_drop_bit 1 input_byte) crc2)"

definition compute_crc_8 :: "u8 \<Rightarrow> u8 \<Rightarrow> u8" where
  "compute_crc_8 input_byte crc = crc_loop 8 input_byte crc"

fun crc_loop_unsigned :: "nat \<Rightarrow> u8 \<Rightarrow> u8 \<Rightarrow> u8" where
  "crc_loop_unsigned 0 input_byte crc = crc"
| "crc_loop_unsigned (Suc i) input_byte crc =
     (let result = (crc XOR input_byte) AND 0x01;
          crc1 = drop_bit 1 crc;
          crc2 = (if result \<noteq> 0 then crc1 XOR 0x8C else crc1)
      in crc_loop_unsigned i (drop_bit 1 input_byte) crc2)"

text \<open>
  The running CRC of \<^verbatim>\<open>receive\<close> and \<^verbatim>\<open>send_string\<close>: \<^verbatim>\<open>CRC = compute_crc_8(b, CRC)\<close> for
  each byte in order. \<open>crc8\<close> starts it from \<^verbatim>\<open>CRC = 0\<close>, as both functions do.
\<close>

fun running_crc :: "u8 \<Rightarrow> u8 list \<Rightarrow> u8" where
  "running_crc crc [] = crc"
| "running_crc crc (b # bs) = running_crc (compute_crc_8 b crc) bs"

definition crc8 :: "u8 list \<Rightarrow> u8" where
  "crc8 bs = running_crc 0 bs"

subsection \<open>Data\<close>

text \<open>
  \<^verbatim>\<open>struct PJON_Packet\<close>. The field \<^verbatim>\<open>length\<close> is \<open>length_p\<close> here. \<^verbatim>\<open>content\<close> is a pointer
  to a buffer obtained from \<^verbatim>\<open>malloc\<close>: \<open>None\<close> is the null pointer or a buffer that has
  been released, \<open>Some bs\<close> a live buffer holding the bytes \<open>bs\<close>.
\<close>

record PJON_Packet =
  attempts :: u8
  header :: u8
  device_id :: u8
  content :: "u8 list option"
  length_p :: u8
  registration :: u32
  state :: u16
  timing :: u32

text \<open>\<^verbatim>\<open>struct PacketInfo\<close>; its \<^verbatim>\<open>header\<close> is \<open>header_info\<close> here.\<close>

record PacketInfo =
  header_info :: u8
  receiver_id :: u8
  receiver_bus_id :: "u8 list"
  sender_id :: u8
  sender_bus_id :: "u8 list"

text \<open>
  What the bus does to the outside world: the calls it makes to the strategy
  (\<^verbatim>\<open>send_byte\<close>, \<^verbatim>\<open>send_response\<close>) and to the platform (\<^verbatim>\<open>delayMicroseconds\<close>), in order.
  What it reads from the outside world (\<^verbatim>\<open>receive_byte\<close>, \<^verbatim>\<open>can_start\<close>,
  \<^verbatim>\<open>receive_response\<close>, \<^verbatim>\<open>micros\<close>, \<^verbatim>\<open>random\<close>, \<^verbatim>\<open>malloc\<close>) is an argument of the function
  that reads it.
\<close>

datatype strategy_call =
  Send_byte u8
| Send_response u8
| Delay_microseconds nat

text \<open>
  \<^verbatim>\<open>class PJON\<close>. The private members \<^verbatim>\<open>_device_id\<close>, \<^verbatim>\<open>_shared\<close>, ... are \<open>u_device_id\<close>,
  \<open>u_shared\<close>, ... The two callbacks are user code: a call of \<^verbatim>\<open>_receiver\<close> is recorded in
  \<open>receiver_log\<close> (the offset of the payload pointer into \<^verbatim>\<open>data\<close>, the length and the
  packet info passed), a call of \<^verbatim>\<open>_error\<close> in \<open>error_log\<close> (code and data). The pins are
  only handed on to the strategy and are left out.
\<close>

record PJON =
  data :: "u8 list"
  packets :: "PJON_Packet list"
  last_packet_info :: PacketInfo
  bus_id :: "u8 list"
  u_acknowledge :: bool
  u_auto_delete :: bool
  u_device_id :: u8
  u_shared :: bool
  u_include_sender_info :: bool
  u_mode :: u8
  u_router :: bool
  receiver_log :: "(nat \<times> u8 \<times> PacketInfo) list"
  error_log :: "(u8 \<times> u8) list"
  strategy_log :: "strategy_call list"

text \<open>The sizes of the arrays \<^verbatim>\<open>data\<close>, \<^verbatim>\<open>packets\<close> and \<^verbatim>\<open>bus_id\<close>.\<close>

definition array_sizes :: "PJON \<Rightarrow> bool" where
  "array_sizes dev =
     (length (data dev) = PACKET_MAX_LENGTH \<and> length (packets dev) = MAX_PACKETS
      \<and> length (bus_id dev) = 4)"

subsection \<open>\<^verbatim>\<open>bus_id_equality\<close>, \<^verbatim>\<open>copy_bus_id\<close>, \<^verbatim>\<open>get_packet_info\<close>\<close>

text \<open>The loop over \<^verbatim>\<open>i < 4\<close>, unrolled: the first differing byte returns \<^verbatim>\<open>false\<close>.\<close>

definition bus_id_equality :: "u8 list \<Rightarrow> u8 list \<Rightarrow> bool" where
  "bus_id_equality name_one name_two =
     (if name_one ! 0 \<noteq> name_two ! 0 then False
      else if name_one ! 1 \<noteq> name_two ! 1 then False
      else if name_one ! 2 \<noteq> name_two ! 2 then False
      else if name_one ! 3 \<noteq> name_two ! 3 then False
      else True)"

text \<open>\<^verbatim>\<open>copy_bus_id(dest, src + off)\<close>: the four bytes of \<open>src\<close> from \<open>off\<close> on.\<close>

definition copy_bus_id :: "u8 list \<Rightarrow> nat \<Rightarrow> u8 list" where
  "copy_bus_id src off = [src ! off, src ! (off + 1), src ! (off + 2), src ! (off + 3)]"

definition get_packet_info :: "u8 list \<Rightarrow> PacketInfo \<Rightarrow> PacketInfo" where
  "get_packet_info packet packet_info =
     (let info1 = packet_info\<lparr>receiver_id := packet ! 0, header_info := packet ! 2\<rparr>
      in if CONTAINS_MODE_INFO (header_info info1) then
           (let info2 = info1\<lparr>receiver_bus_id := copy_bus_id packet 3\<rparr>
            in if CONTAINS_SENDER_INFO (header_info info1)
               then info2\<lparr>sender_bus_id := copy_bus_id packet 7, sender_id := packet ! 11\<rparr>
               else info2)
         else
           (if CONTAINS_SENDER_INFO (header_info info1)
            then info1\<lparr>sender_id := packet ! 3\<rparr>
            else info1))"

subsection \<open>\<^verbatim>\<open>receive\<close>\<close>

text \<open>The local variables of \<^verbatim>\<open>receive()\<close> that live across loop iterations.\<close>

record receive_locals =
  packet_length :: nat
  CRC :: u8
  shared :: bool
  packet_includes_sender_info :: bool
  acknowledge_requested :: bool

definition receive_init :: receive_locals where
  "receive_init =
     \<lparr>packet_length = PACKET_MAX_LENGTH, CRC = 0, shared = False,
      packet_includes_sender_info = False, acknowledge_requested = False\<rparr>"

text \<open>
  One iteration of the \<^verbatim>\<open>for\<close> loop, for the value \<open>st\<close> that \<^verbatim>\<open>receive_byte\<close> returned:
  \<open>Inl\<close> is a \<^verbatim>\<open>return\<close> from inside the loop (the code returned, and the bus with the
  bytes stored so far), \<open>Inr\<close> goes on to the next iteration.
\<close>

definition receive_step ::
  "nat \<Rightarrow> u16 \<Rightarrow> receive_locals \<Rightarrow> PJON \<Rightarrow> (u16 \<times> PJON) + (receive_locals \<times> PJON)" where
  "receive_step i st L dev =
     (let dev1 = dev\<lparr>data := (data dev)[i := ucast st]\<rparr>
      in if st = FAIL then Inl (FAIL, dev1)
         else if i = 0 \<and> data dev1 ! i \<noteq> u_device_id dev1 \<and> data dev1 ! i \<noteq> BROADCAST
                 \<and> \<not> u_router dev1
         then Inl (BUSY, dev1)
         else if i = 1 \<and> \<not> (unat (data dev1 ! i) > 4 \<and> unat (data dev1 ! i) < PACKET_MAX_LENGTH)
         then Inl (FAIL, dev1)
         else
           (let L1 = (if i = 1 then L\<lparr>packet_length := unat (data dev1 ! i)\<rparr> else L);
                L2 = (if i = 2
                      then L1\<lparr>shared := CONTAINS_MODE_INFO (data dev1 ! 2),
                              packet_includes_sender_info := CONTAINS_SENDER_INFO (data dev1 ! 2),
                              acknowledge_requested := CONTAINS_ACK_REQUEST (data dev1 ! 2)\<rparr>
                      else L1)
            in if i = 2 \<and> (shared L2 \<noteq> u_shared dev1) \<and> \<not> u_router dev1
               then Inl (BUSY, dev1)
               else if u_shared dev1 \<and> shared L2 \<and> \<not> u_router dev1 \<and> i > 2 \<and> i < 7
                       \<and> bus_id dev1 ! (i - 3) \<noteq> data dev1 ! i
               then Inl (BUSY, dev1)
               else Inr (L2\<lparr>CRC := compute_crc_8 (data dev1 ! i) (CRC L2)\<rparr>, dev1)))"

text \<open>
  The loop \<^verbatim>\<open>for(uint8_t i = 0; i < packet_length; i++)\<close>. Its last argument is what the
  strategy's \<^verbatim>\<open>receive_byte\<close> returns, call by call: a value up to \<^verbatim>\<open>0xFF\<close> for a byte,
  \<^verbatim>\<open>FAIL\<close> for a failed read. When the list is used up the wire is silent and
  \<^verbatim>\<open>receive_byte\<close> times out, which is \<^verbatim>\<open>FAIL\<close> again.
\<close>

fun receive_loop ::
  "nat \<Rightarrow> receive_locals \<Rightarrow> PJON \<Rightarrow> u16 list \<Rightarrow> (u16 \<times> PJON) + (receive_locals \<times> PJON)" where
  "receive_loop i L dev [] =
     (if i < packet_length L then receive_step i FAIL L dev else Inr (L, dev))"
| "receive_loop i L dev (st # wire) =
     (if i < packet_length L
      then (case receive_step i st L dev of
              Inl r \<Rightarrow> Inl r
            | Inr (L', dev') \<Rightarrow> receive_loop (i + 1) L' dev' wire)
      else Inr (L, dev))"

text \<open>
  The part of \<^verbatim>\<open>receive()\<close> after the loop. The payload length handed to the receiver is
  computed on \<^verbatim>\<open>int\<close>s and passed as a \<^verbatim>\<open>uint8_t\<close>, so it wraps modulo 256.
\<close>

definition receive_finish :: "receive_locals \<Rightarrow> PJON \<Rightarrow> u16 \<times> PJON" where
  "receive_finish L dev =
     (if CRC L = 0 then
        (let dev1 = dev\<lparr>last_packet_info := get_packet_info (data dev) (last_packet_info dev)\<rparr>;
             dev2 = (if acknowledge_requested L \<and> data dev1 ! 0 \<noteq> BROADCAST \<and> u_mode dev1 \<noteq> SIMPLEX
                     then (if \<not> u_shared dev1 \<or> (u_shared dev1 \<and> shared L
                                \<and> bus_id_equality (receiver_bus_id (last_packet_info dev1)) (bus_id dev1))
                           then dev1\<lparr>strategy_log := strategy_log dev1 @ [Send_response ACK]\<rparr>
                           else dev1)
                     else dev1);
             payload_offset = (3 + (if shared L
                                    then (if packet_includes_sender_info L then 9 else 4)
                                    else (if packet_includes_sender_info L then 1 else 0)) :: u8);
             dev3 = dev2\<lparr>receiver_log := receiver_log dev2 @
                      [(unat payload_offset, data dev2 ! 3 - payload_offset - 1, last_packet_info dev2)]\<rparr>
         in (ACK, dev3))
      else
        (let dev1 = (if acknowledge_requested L \<and> data dev ! 0 \<noteq> BROADCAST \<and> u_mode dev \<noteq> SIMPLEX
                     then (if \<not> u_shared dev \<or> (u_shared dev \<and> shared L
                                \<and> bus_id_equality (receiver_bus_id (last_packet_info dev)) (bus_id dev))
                           then dev\<lparr>strategy_log := strategy_log dev @ [Send_response NAK]\<rparr>
                           else dev)
                     else dev)
         in (NAK, dev1)))"

definition receive :: "PJON \<Rightarrow> u16 list \<Rightarrow> u16 \<times> PJON" where
  "receive dev wire =
     (case receive_loop 0 receive_init dev wire of
        Inl r \<Rightarrow> r
      | Inr (L, dev') \<Rightarrow> receive_finish L dev')"

text \<open>
  A byte that arrives intact is returned by \<^verbatim>\<open>receive_byte\<close> as its value, so a sequence of
  bytes that all arrive is the sequence of these values.
\<close>

definition on_wire :: "u8 list \<Rightarrow> u16 list" where
  "on_wire bs = map ucast bs"

subsection \<open>\<^verbatim>\<open>send_string\<close>\<close>

text \<open>
  Modelled from the spec: \<^verbatim>\<open>random(min, max)\<close> is the platform's bounded random number
  source, which is not part of this repository; per sections 4.4 and 4.7 of the
  specification it yields a value from \<open>min\<close> up to \<open>max - 1\<close>. \<open>raw\<close> is the next output of
  the generator behind it.
\<close>

definition random :: "nat \<Rightarrow> nat \<Rightarrow> nat \<Rightarrow> nat" where
  "random lo hi raw = (if hi \<le> lo then lo else lo + raw mod (hi - lo))"

text \<open>
  What one call of \<^verbatim>\<open>send_string\<close> reads from outside: the answer of \<^verbatim>\<open>can_start\<close>, the value
  returned by \<^verbatim>\<open>receive_response\<close> and the generator output behind \<^verbatim>\<open>random\<close>.
\<close>

record send_env =
  can_start :: bool
  response :: u16
  random_raw :: nat

text \<open>
  \<^verbatim>\<open>Strategy::send_byte(b, ...); CRC = compute_crc_8(b, CRC);\<close> on the pair of the running
  CRC and the bus.
\<close>

definition send_byte_crc :: "u8 \<Rightarrow> u8 \<times> PJON \<Rightarrow> u8 \<times> PJON" where
  "send_byte_crc b s =
     (case s of (crc, dev) \<Rightarrow>
        (compute_crc_8 b crc, dev\<lparr>strategy_log := strategy_log dev @ [Send_byte b]\<rparr>))"

text \<open>
  The bytes \<^verbatim>\<open>string[0]\<close>, ..., \<^verbatim>\<open>string[length - 1]\<close> that a loop over \<^verbatim>\<open>i < length\<close> reads.
  Reading past the end of the buffer is undefined in C; the value is unspecified here too.
\<close>

definition string_bytes :: "u8 list \<Rightarrow> u8 \<Rightarrow> u8 list" where
  "string_bytes string len = map (\<lambda>i. string ! i) [0 ..< unat len]"

definition send_string ::
  "PJON \<Rightarrow> send_env \<Rightarrow> u8 \<Rightarrow> u8 list option \<Rightarrow> u8 \<Rightarrow> u8 \<Rightarrow> u16 \<times> PJON" where
  "send_string dev env id_arg string len custom_header =
     (case string of
        None \<Rightarrow> (FAIL, dev)
      | Some str \<Rightarrow>
          if u_mode dev \<noteq> SIMPLEX \<and> \<not> can_start env then (BUSY, dev)
          else
            (let s1 = send_byte_crc id_arg (0, dev);
                 s2 = send_byte_crc (len + 4) s1;
                 s3 = send_byte_crc custom_header s2;
                 s4 = fold send_byte_crc (string_bytes str len) s3;
                 dev1 = (snd s4)\<lparr>strategy_log := strategy_log (snd s4) @ [Send_byte (fst s4)]\<rparr>
             in if \<not> u_acknowledge dev1 \<or> id_arg = BROADCAST \<or> u_mode dev1 = SIMPLEX then (ACK, dev1)
                else if response env = ACK then (ACK, dev1)
                else
                  (let dev2 = (if response env \<noteq> FAIL
                               then dev1\<lparr>strategy_log := strategy_log dev1 @
                                      [Delay_microseconds
                                         (random 0 COLLISION_MAX_DELAY (random_raw env))]\<rparr>
                               else dev1)
                   in if response env = NAK then (NAK, dev2) else (FAIL, dev2))))"

subsection \<open>\<^verbatim>\<open>remove\<close> and \<^verbatim>\<open>dispatch\<close>\<close>

text \<open>\<^verbatim>\<open>packets[i]\<close> changed by \<open>f\<close>.\<close>

definition set_packet :: "nat \<Rightarrow> (PJON_Packet \<Rightarrow> PJON_Packet) \<Rightarrow> PJON \<Rightarrow> PJON" where
  "set_packet i f dev = dev\<lparr>packets := (packets dev)[i := f (packets dev ! i)]\<rparr>"

text \<open>\<^verbatim>\<open>_error(code, data)\<close>.\<close>

definition call_error :: "u8 \<Rightarrow> u8 \<Rightarrow> PJON \<Rightarrow> PJON" where
  "call_error code dat dev = dev\<lparr>error_log := error_log dev @ [(code, dat)]\<rparr>"


text \<open>
  What one call of \<^verbatim>\<open>dispatch\<close> reads from outside: whether \<^verbatim>\<open>malloc\<close> returns a buffer, and
  the value of \<^verbatim>\<open>micros()\<close>.
\<close>

record dispatch_env =
  malloc_ok :: bool
  micros :: u32

text \<open>The loop \<^verbatim>\<open>for(uint8_t i = 0; i < MAX_PACKETS; i++)\<close> of \<^verbatim>\<open>dispatch\<close> and what follows it.\<close>

function dispatch_loop ::
  "nat \<Rightarrow> (PJON_Packet \<Rightarrow> PJON_Packet) \<Rightarrow> PJON \<Rightarrow> u16 \<times> PJON" where
  "dispatch_loop i fill dev =
     (if i < MAX_PACKETS
      then (if state (packets dev ! i) = 0
            then (of_nat i, set_packet i fill dev)
            else dispatch_loop (i + 1) fill dev)
      else (FAIL, call_error PACKETS_BUFFER_FULL (of_nat MAX_PACKETS) dev))"
  by pat_completeness auto
termination
  by (relation "measure (\<lambda>(i, fill, dev). MAX_PACKETS - i)") auto

definition dispatch ::
  "PJON \<Rightarrow> dispatch_env \<Rightarrow> u8 \<Rightarrow> u8 list \<Rightarrow> u8 list \<Rightarrow> u8 \<Rightarrow> u32 \<Rightarrow> u8 \<Rightarrow> u16 \<times> PJON" where
  "dispatch dev env id_arg b_id packet len timing_arg custom_header =
     (let new_length = (if u_shared dev
                        then len + (if u_include_sender_info dev then 9 else 4)
                        else len + (if u_include_sender_info dev then 1 else 0));
          custom_header1 =
            (if custom_header = 0
             then ((custom_header OR (if u_shared dev then MODE_BIT else 0))
                     OR (if u_include_sender_info dev then SENDER_INFO_BIT else 0))
                     OR (if u_acknowledge dev then ACK_REQUEST_BIT else 0)
             else custom_header)
      in if unat new_length \<ge> PACKET_MAX_LENGTH
         then (FAIL, call_error CONTENT_TOO_LONG new_length dev)
         else if \<not> malloc_ok env
         then (FAIL, call_error MEMORY_FULL 0 dev)
         else
           (let str = (if u_shared dev
                       then copy_bus_id b_id 0 @
                              (if u_include_sender_info dev
                               then copy_bus_id (bus_id dev) 0 @ [u_device_id dev]
                               else [])
                       else (if u_include_sender_info dev then [u_device_id dev] else []))
                      @ string_bytes packet len
            in dispatch_loop 0
                 (\<lambda>p. p\<lparr>header := custom_header1, content := Some str, device_id := id_arg,
                         length_p := new_length, state := TO_BE_SENT,
                         registration := micros env, timing := timing_arg\<rparr>)
                 dev))"

definition send :: "PJON \<Rightarrow> dispatch_env \<Rightarrow> u8 \<Rightarrow> u8 list \<Rightarrow> u8 \<Rightarrow> u16 \<times> PJON" where
  "send dev env id_arg packet len = dispatch dev env id_arg (bus_id dev) packet len 0 0"

definition send_repeatedly ::
  "PJON \<Rightarrow> dispatch_env \<Rightarrow> u8 \<Rightarrow> u8 list \<Rightarrow> u8 \<Rightarrow> u32 \<Rightarrow> u16 \<times> PJON" where
  "send_repeatedly dev env id_arg packet len timing_arg =
     dispatch dev env id_arg (bus_id dev) packet len timing_arg 0"

subsection \<open>\<^verbatim>\<open>update\<close>\<close>








subsection \<open>Frames\<close>

text \<open>
  The bytes \<^verbatim>\<open>send_string(id, string, length, custom_header)\<close> puts on the wire, in order:
  recipient id, \<^verbatim>\<open>length + 4\<close>, header, the content, and the CRC of all of these.
\<close>

definition frame_body :: "u8 \<Rightarrow> u8 \<Rightarrow> u8 \<Rightarrow> u8 list \<Rightarrow> u8 list" where
  "frame_body id_arg len custom_header str = [id_arg, len + 4, custom_header] @ string_bytes str len"

definition frame :: "u8 \<Rightarrow> u8 \<Rightarrow> u8 \<Rightarrow> u8 list \<Rightarrow> u8 list" where
  "frame id_arg len custom_header str =
     frame_body id_arg len custom_header str @ [crc8 (frame_body id_arg len custom_header str)]"

text \<open>
  A frame whose length byte counts all of its bytes and is one that \<^verbatim>\<open>receive\<close> lets pass
  (more than 4, less than \<^verbatim>\<open>PACKET_MAX_LENGTH\<close>).
\<close>

definition is_frame :: "u8 list \<Rightarrow> bool" where
  "is_frame f = (4 < length f \<and> length f < PACKET_MAX_LENGTH \<and> unat (f ! 1) = length f)"

subsection \<open>Slots of the queue\<close>


subsection \<open>Example buses\<close>

text \<open>
  A slot and a packet info as they are in a bus object in zero-initialised static storage
  after the constructor has run, and the two buses \<^verbatim>\<open>PJON bus(99)\<close> on the local bus and
  \<^verbatim>\<open>PJON bus({1, 1, 1, 1}, 12)\<close> on the shared bus 1.1.1.1.
\<close>

definition free_slot :: PJON_Packet where
  "free_slot =
     \<lparr>attempts = 0, header = 0, device_id = 0, content = None, length_p = 0,
      registration = 0, state = 0, timing = 0\<rparr>"

definition no_packet_info :: PacketInfo where
  "no_packet_info =
     \<lparr>header_info = 0, receiver_id = 0, receiver_bus_id = [0, 0, 0, 0], sender_id = 0,
      sender_bus_id = [0, 0, 0, 0]\<rparr>"

definition local_bus_99 :: PJON where
  "local_bus_99 =
     \<lparr>data = replicate 50 0, packets = replicate 10 free_slot,
      last_packet_info = no_packet_info, bus_id = [0, 0, 0, 0],
      u_acknowledge = True, u_auto_delete = True, u_device_id = 99, u_shared = False,
      u_include_sender_info = False, u_mode = HALF_DUPLEX, u_router = False,
      receiver_log = [], error_log = [], strategy_log = []\<rparr>"

definition shared_bus_12 :: PJON where
  "shared_bus_12 =
     \<lparr>data = replicate 50 0, packets = replicate 10 free_slot,
      last_packet_info = no_packet_info, bus_id = [1, 1, 1, 1],
      u_acknowledge = True, u_auto_delete = True, u_device_id = 12, u_shared = True,
      u_include_sender_info = False, u_mode = HALF_DUPLEX, u_router = False,
      receiver_log = [], error_log = [], strategy_log = []\<rparr>"

text \<open>The bus 12 on 1.1.1.1 after \<^verbatim>\<open>set_router(true)\<close>.\<close>

definition router_bus_12 :: PJON where
  "router_bus_12 = shared_bus_12\<lparr>u_router := True\<rparr>"

text \<open>
  The local bus 99 with every slot of its queue taken by a one-byte packet for device 12.
\<close>

definition busy_slot :: PJON_Packet where
  "busy_slot =
     \<lparr>attempts = 0, header = 4, device_id = 12, content = Some [0x40], length_p = 1,
      registration = 0, state = TO_BE_SENT, timing = 0\<rparr>"

definition full_bus_99 :: PJON where
  "full_bus_99 = local_bus_99\<lparr>packets := replicate 10 busy_slot\<rparr>"






section \<open>Properties\<close>

named_theorems pjon_consts

lemmas pjon_symbols [pjon_consts] =
  SIMPLEX_def HALF_DUPLEX_def ACK_def ACQUIRE_ID_def BUSY_def NAK_def BROADCAST_def
  NOT_ASSIGNED_def FAIL_def TO_BE_SENT_def MODE_BIT_def SENDER_INFO_BIT_def ACK_REQUEST_BIT_def
  CONTAINS_MODE_INFO_def CONTAINS_SENDER_INFO_def CONTAINS_ACK_REQUEST_def
  CONNECTION_LOST_def PACKETS_BUFFER_FULL_def MEMORY_FULL_def CONTENT_TOO_LONG_def
  ID_ACQUISITION_FAIL_def MAX_ATTEMPTS_def MAX_PACKETS_def PACKET_MAX_LENGTH_def
  COLLISION_MAX_DELAY_def

subsection \<open>CRC\<close>

lemma and_one_eq_0_iff: "(w AND 1 = 0) = (\<not> bit w 0)" for w :: u8
  by (simp add: and_one_eq even_iff_mod_2_eq_zero bit_0)

lemma crc_loop_self:
  "j + k \<le> 8 \<Longrightarrow> crc_loop k (signed_drop_bit j c) (drop_bit j c) = drop_bit (j + k) c"
proof (induction k arbitrary: j)
  case 0
  then show ?case by simp
next
  case (Suc k)
  from Suc.prems have j: "j < 8" by simp
  have bit0: "\<not> bit (drop_bit j c XOR signed_drop_bit j c) 0"
    using j by (simp add: bit_simps)
  have step: "crc_loop k (signed_drop_bit (Suc j) c) (drop_bit (Suc j) c) = drop_bit (Suc j + k) c"
    using Suc.IH [of "Suc j"] Suc.prems by simp
  show ?case
    using bit0 step by (simp add: Let_def and_one_eq_0_iff drop_bit_drop_bit)
qed

lemma compute_crc_8_self: "compute_crc_8 c c = 0"
proof -
  have "crc_loop 8 (signed_drop_bit 0 c) (drop_bit 0 c) = drop_bit (0 + 8) c"
    by (rule crc_loop_self) simp
  moreover have "drop_bit 8 c = 0"
    by (rule bit_word_eqI) (simp add: bit_simps)
  ultimately show ?thesis by (simp add: compute_crc_8_def)
qed

lemma running_crc_append: "running_crc crc (xs @ ys) = running_crc (running_crc crc xs) ys"
  by (induction xs arbitrary: crc) simp_all

lemma crc_loop_unsigned_eq:
  "j + k \<le> 8 \<Longrightarrow>
   crc_loop k (signed_drop_bit j c) crc = crc_loop_unsigned k (drop_bit j c) crc"
proof (induction k arbitrary: j crc)
  case 0
  then show ?case by simp
next
  case (Suc k)
  from Suc.prems have j: "j < 8" by simp
  have b: "bit (crc XOR signed_drop_bit j c) 0 = bit (crc XOR drop_bit j c) 0"
    using j by (simp add: bit_simps)
  have ih: "crc_loop k (signed_drop_bit (Suc j) c) crc' = crc_loop_unsigned k (drop_bit (Suc j) c) crc'"
    for crc'
    using Suc.IH [of "Suc j" crc'] Suc.prems by simp
  show ?case
    using b ih by (simp add: Let_def and_one_eq_0_iff drop_bit_drop_bit)
qed

lemma compute_crc_8_char_sign: "compute_crc_8 b crc = crc_loop_unsigned 8 b crc"
  using crc_loop_unsigned_eq [of 0 8 b crc] by (simp add: compute_crc_8_def)

text \<open>
  C1. For every byte sequence \<open>b\<close>, extending \<open>b\<close> with its CRC-8 (polynomial 0x8C, initial
  value 0, no final XOR, computed bytewise by \<open>compute_crc_8\<close>) and folding the whole
  extended sequence through the running CRC yields 0.
\<close>

theorem crc_round_trip: "running_crc 0 (b @ [crc8 b]) = 0"
  by (simp add: running_crc_append crc8_def compute_crc_8_self)

subsection \<open>Receiving\<close>

lemma ucast_on_wire: "(ucast (ucast b :: u16) :: u8) = b" for b :: u8
  by (rule bit_word_eqI) (simp add: bit_simps)

lemma on_wire_not_FAIL: "(ucast b :: u16) \<noteq> FAIL" for b :: u8
proof
  assume "(ucast b :: u16) = FAIL"
  then have "bit (ucast b :: u16) 8 = bit (FAIL :: u16) 8" by simp
  then show False by (auto simp add: FAIL_def bit_simps dest: bit_imp_le_length)
qed

declare ucast_on_wire [simp] on_wire_not_FAIL [simp]

lemma receive_loop_Cons:
  "i < packet_length L \<Longrightarrow>
   receive_loop i L dev (st # wire) =
     (case receive_step i st L dev of
        Inl r \<Rightarrow> Inl r
      | Inr (L', dev') \<Rightarrow> receive_loop (i + 1) L' dev' wire)"
  by simp

lemma receive_step_0:
  "0 < length (data dev) \<Longrightarrow>
   receive_step 0 (ucast f) L dev =
     (if f \<noteq> u_device_id dev \<and> f \<noteq> BROADCAST \<and> \<not> u_router dev
      then Inl (BUSY, dev\<lparr>data := (data dev)[0 := f]\<rparr>)
      else Inr (L\<lparr>CRC := compute_crc_8 f (CRC L)\<rparr>, dev\<lparr>data := (data dev)[0 := f]\<rparr>))"
  by (simp add: receive_step_def Let_def)

lemma receive_step_1:
  "Suc 0 < length (data dev) \<Longrightarrow>
   receive_step (Suc 0) (ucast f) L dev =
     (if 4 < unat f \<and> unat f < PACKET_MAX_LENGTH
      then Inr (L\<lparr>packet_length := unat f, CRC := compute_crc_8 f (CRC L)\<rparr>,
                dev\<lparr>data := (data dev)[Suc 0 := f]\<rparr>)
      else Inl (FAIL, dev\<lparr>data := (data dev)[Suc 0 := f]\<rparr>))"
  by (simp add: receive_step_def Let_def)

lemma receive_step_2:
  "2 < length (data dev) \<Longrightarrow>
   receive_step 2 (ucast f) L dev =
     (if CONTAINS_MODE_INFO f \<noteq> u_shared dev \<and> \<not> u_router dev
      then Inl (BUSY, dev\<lparr>data := (data dev)[2 := f]\<rparr>)
      else Inr (L\<lparr>shared := CONTAINS_MODE_INFO f,
                  packet_includes_sender_info := CONTAINS_SENDER_INFO f,
                  acknowledge_requested := CONTAINS_ACK_REQUEST f,
                  CRC := compute_crc_8 f (CRC L)\<rparr>,
                dev\<lparr>data := (data dev)[2 := f]\<rparr>))"
  by (simp add: receive_step_def Let_def)

lemma receive_step_payload:
  "2 < i \<Longrightarrow> i < length (data dev) \<Longrightarrow>
   receive_step i (ucast f) L dev =
     (if u_shared dev \<and> shared L \<and> \<not> u_router dev \<and> i < 7 \<and> bus_id dev ! (i - 3) \<noteq> f
      then Inl (BUSY, dev\<lparr>data := (data dev)[i := f]\<rparr>)
      else Inr (L\<lparr>CRC := compute_crc_8 f (CRC L)\<rparr>, dev\<lparr>data := (data dev)[i := f]\<rparr>))"
  by (simp add: receive_step_def Let_def)

lemma on_wire_Cons [simp]: "on_wire (b # bs) = ucast b # on_wire bs"
  by (simp add: on_wire_def)

lemma on_wire_Nil [simp]: "on_wire [] = []"
  by (simp add: on_wire_def)

declare receive_loop.simps [simp del]

lemma receive_loop_id_busy:
  assumes "0 < length (data dev)" "f0 \<noteq> u_device_id dev" "f0 \<noteq> BROADCAST" "\<not> u_router dev"
  shows "receive_loop 0 receive_init dev (on_wire (f0 # fs)) =
           Inl (BUSY, dev\<lparr>data := (data dev)[0 := f0]\<rparr>)"
  unfolding on_wire_Cons using assms
  by (subst receive_loop_Cons) (simp_all add: receive_step_0 receive_init_def PACKET_MAX_LENGTH_def)

text \<open>The locals and the buffer after the first three bytes have passed the filters.\<close>

lemma receive_loop_header:
  assumes "2 < length (data dev)"
    and "f0 = u_device_id dev \<or> f0 = BROADCAST \<or> u_router dev"
    and "4 < unat f1" "unat f1 < PACKET_MAX_LENGTH"
    and "CONTAINS_MODE_INFO f2 = u_shared dev \<or> u_router dev"
  shows "receive_loop 0 receive_init dev (on_wire (f0 # f1 # f2 # fs)) =
           receive_loop 3
             \<lparr>packet_length = unat f1, CRC = running_crc 0 [f0, f1, f2],
              shared = CONTAINS_MODE_INFO f2,
              packet_includes_sender_info = CONTAINS_SENDER_INFO f2,
              acknowledge_requested = CONTAINS_ACK_REQUEST f2\<rparr>
             (dev\<lparr>data := (data dev)[0 := f0, 1 := f1, 2 := f2]\<rparr>)
             (on_wire fs)"
proof -
  define L0 where "L0 = receive_init\<lparr>CRC := compute_crc_8 f0 (CRC receive_init)\<rparr>"
  define d0 where "d0 = dev\<lparr>data := (data dev)[0 := f0]\<rparr>"
  have s0: "receive_loop 0 receive_init dev (on_wire (f0 # f1 # f2 # fs)) =
        receive_loop 1 L0 d0 (on_wire (f1 # f2 # fs))"
  proof -
    have "0 < length (data dev)" using assms(1) by linarith
    then show ?thesis
      unfolding on_wire_Cons using assms(2)
      by (subst receive_loop_Cons)
         (auto simp add: receive_step_0 L0_def d0_def receive_init_def PACKET_MAX_LENGTH_def)
  qed
  define L1 where "L1 = L0\<lparr>packet_length := unat f1, CRC := compute_crc_8 f1 (CRC L0)\<rparr>"
  define d1 where "d1 = d0\<lparr>data := (data d0)[1 := f1]\<rparr>"
  have s1: "receive_loop 1 L0 d0 (on_wire (f1 # f2 # fs)) = receive_loop 2 L1 d1 (on_wire (f2 # fs))"
  proof -
    have "1 < length (data d0)" using assms(1) by (simp add: d0_def)
    then show ?thesis
      unfolding on_wire_Cons using assms(3,4)
      by (subst receive_loop_Cons)
         (simp_all add: receive_step_1 L0_def L1_def d1_def receive_init_def PACKET_MAX_LENGTH_def
            numeral_2_eq_2)
  qed
  have s2: "receive_loop 2 L1 d1 (on_wire (f2 # fs)) =
      receive_loop 3 (L1\<lparr>shared := CONTAINS_MODE_INFO f2,
                  packet_includes_sender_info := CONTAINS_SENDER_INFO f2,
                  acknowledge_requested := CONTAINS_ACK_REQUEST f2,
                  CRC := compute_crc_8 f2 (CRC L1)\<rparr>) (d1\<lparr>data := (data d1)[2 := f2]\<rparr>) (on_wire fs)"
  proof -
    have "2 < length (data d1)" using assms(1) by (simp add: d1_def d0_def)
    moreover have "u_shared d1 = u_shared dev" "u_router d1 = u_router dev"
      by (simp_all add: d1_def d0_def)
    ultimately show ?thesis
      unfolding on_wire_Cons using assms(3,5)
      by (subst receive_loop_Cons) (auto simp add: receive_step_2 L1_def)
  qed
  show ?thesis
    unfolding s0 s1 s2 by (simp add: L1_def L0_def d1_def d0_def receive_init_def)
qed

lemma receive_loop_header_mode_busy:
  assumes "2 < length (data dev)"
    and "f0 = u_device_id dev \<or> f0 = BROADCAST"
    and "4 < unat f1" "unat f1 < PACKET_MAX_LENGTH"
    and "CONTAINS_MODE_INFO f2 \<noteq> u_shared dev" "\<not> u_router dev"
  shows "receive_loop 0 receive_init dev (on_wire (f0 # f1 # f2 # fs)) =
           Inl (BUSY, dev\<lparr>data := (data dev)[0 := f0, 1 := f1, 2 := f2]\<rparr>)"
proof -
  define L0 where "L0 = receive_init\<lparr>CRC := compute_crc_8 f0 (CRC receive_init)\<rparr>"
  define d0 where "d0 = dev\<lparr>data := (data dev)[0 := f0]\<rparr>"
  have s0: "receive_loop 0 receive_init dev (on_wire (f0 # f1 # f2 # fs)) =
        receive_loop 1 L0 d0 (on_wire (f1 # f2 # fs))"
  proof -
    have "0 < length (data dev)" using assms(1) by linarith
    then show ?thesis
      unfolding on_wire_Cons using assms(2)
      by (subst receive_loop_Cons)
         (auto simp add: receive_step_0 L0_def d0_def receive_init_def PACKET_MAX_LENGTH_def)
  qed
  define L1 where "L1 = L0\<lparr>packet_length := unat f1, CRC := compute_crc_8 f1 (CRC L0)\<rparr>"
  define d1 where "d1 = d0\<lparr>data := (data d0)[1 := f1]\<rparr>"
  have s1: "receive_loop 1 L0 d0 (on_wire (f1 # f2 # fs)) = receive_loop 2 L1 d1 (on_wire (f2 # fs))"
  proof -
    have "1 < length (data d0)" using assms(1) by (simp add: d0_def)
    then show ?thesis
      unfolding on_wire_Cons using assms(3,4)
      by (subst receive_loop_Cons)
         (simp_all add: receive_step_1 L0_def L1_def d1_def receive_init_def PACKET_MAX_LENGTH_def
            numeral_2_eq_2)
  qed
  have s2: "receive_loop 2 L1 d1 (on_wire (f2 # fs)) = Inl (BUSY, d1\<lparr>data := (data d1)[2 := f2]\<rparr>)"
  proof -
    have "2 < length (data d1)" using assms(1) by (simp add: d1_def d0_def)
    moreover have "u_shared d1 = u_shared dev" "u_router d1 = u_router dev"
      by (simp_all add: d1_def d0_def)
    ultimately show ?thesis
      unfolding on_wire_Cons using assms(3,5,6)
      by (subst receive_loop_Cons) (auto simp add: receive_step_2 L1_def)
  qed
  show ?thesis
    unfolding s0 s1 s2 by (simp add: d1_def d0_def)
qed

lemma receive_loop_bus_busy:
  assumes "u_shared dev" "shared L" "\<not> u_router dev"
    and "3 \<le> i" "i + length pre \<le> 7" "7 \<le> packet_length L" "7 \<le> length (data dev)"
    and "\<exists>k<length pre. pre ! k \<noteq> bus_id dev ! (i - 3 + k)"
  shows "\<exists>d. receive_loop i L dev (on_wire (pre @ fs)) = Inl (BUSY, d)"
  using assms
proof (induction pre arbitrary: i L dev)
  case Nil
  then show ?case by simp
next
  case (Cons p ps)
  from Cons.prems have i: "2 < i" "i < 7" "i < packet_length L" "i < length (data dev)"
    by simp_all
  show ?case
  proof (cases "bus_id dev ! (i - 3) \<noteq> p")
    case True
    then show ?thesis
      using Cons.prems(1-3) i
      by (simp add: receive_loop_Cons [OF i(3)] receive_step_payload)
  next
    case False
    define L' where "L' = L\<lparr>CRC := compute_crc_8 p (CRC L)\<rparr>"
    define dev' where "dev' = dev\<lparr>data := (data dev)[i := p]\<rparr>"
    have step: "receive_loop i L dev (on_wire ((p # ps) @ fs)) = receive_loop (i + 1) L' dev' (on_wire (ps @ fs))"
      using False i
      by (simp add: receive_loop_Cons [OF i(3)] receive_step_payload L'_def dev'_def)
    from Cons.prems(8) obtain k0 where k0: "k0 < length (p # ps)" "(p # ps) ! k0 \<noteq> bus_id dev ! (i - 3 + k0)"
      by blast
    with False obtain k where "k0 = Suc k"
      by (cases k0) auto
    with k0 have k: "k < length ps" "ps ! k \<noteq> bus_id dev ! (i - 3 + Suc k)"
      by simp_all
    have "\<exists>d. receive_loop (i + 1) L' dev' (on_wire (ps @ fs)) = Inl (BUSY, d)"
    proof (rule Cons.IH)
      have "i + 1 - 3 + k = i - 3 + Suc k"
        using i by arith
      moreover have "bus_id dev' = bus_id dev"
        by (simp add: dev'_def)
      ultimately have "ps ! k \<noteq> bus_id dev' ! (i + 1 - 3 + k)"
        using k(2) by simp
      with k(1) show "\<exists>k<length ps. ps ! k \<noteq> bus_id dev' ! (i + 1 - 3 + k)"
        by blast
    qed (use Cons.prems i in \<open>simp_all add: L'_def dev'_def\<close>)
    with step show ?thesis by simp
  qed
qed

lemma list_at_least_5:
  "4 < length f \<Longrightarrow> \<exists>f0 f1 f2 f3 f4 fs. f = f0 # f1 # f2 # f3 # f4 # fs"
proof -
  assume "4 < length f"
  then have "Suc (Suc (Suc (Suc (Suc 0)))) \<le> length f" by simp
  then show ?thesis by (auto simp: Suc_le_length_iff)
qed

lemma list_at_least_7:
  "7 \<le> length f \<Longrightarrow> \<exists>f0 f1 f2 f3 f4 f5 f6 fs. f = f0 # f1 # f2 # f3 # f4 # f5 # f6 # fs"
proof -
  assume "7 \<le> length f"
  then have "Suc (Suc (Suc (Suc (Suc (Suc (Suc 0)))))) \<le> length f" by simp
  then show ?thesis by (auto simp: Suc_le_length_iff)
qed

lemma receive_busy_id:
  assumes "array_sizes dev" "\<not> u_router dev" "f \<noteq> []"
    and "f ! 0 \<noteq> u_device_id dev" "f ! 0 \<noteq> BROADCAST"
  shows "fst (receive dev (on_wire f)) = BUSY"
proof -
  from assms(3) obtain f0 fs where f: "f = f0 # fs" by (cases f) auto
  have "0 < length (data dev)"
    using assms(1) by (simp add: array_sizes_def PACKET_MAX_LENGTH_def)
  then have "receive_loop 0 receive_init dev (on_wire (f0 # fs)) =
           Inl (BUSY, dev\<lparr>data := (data dev)[0 := f0]\<rparr>)"
    using assms(2,4,5) by (intro receive_loop_id_busy) (simp_all add: f)
  then show ?thesis
    by (simp add: receive_def f)
qed

lemma receive_busy_mode:
  assumes "array_sizes dev" "\<not> u_router dev" "is_frame f"
    and "CONTAINS_MODE_INFO (f ! 2) \<noteq> u_shared dev"
  shows "fst (receive dev (on_wire f)) = BUSY"
proof (cases "f ! 0 \<noteq> u_device_id dev \<and> f ! 0 \<noteq> BROADCAST")
  case True
  moreover have "f \<noteq> []" using assms(3) by (auto simp: is_frame_def)
  ultimately show ?thesis using assms(1,2) by (simp add: receive_busy_id)
next
  case False
  from assms(3) obtain f0 f1 f2 f3 f4 fs where f: "f = f0 # f1 # f2 # f3 # f4 # fs"
    using list_at_least_5 [of f] by (auto simp: is_frame_def)
  have len: "2 < length (data dev)"
    using assms(1) by (simp add: array_sizes_def PACKET_MAX_LENGTH_def)
  have f1: "4 < unat f1" "unat f1 < PACKET_MAX_LENGTH"
    using assms(3) by (simp_all add: is_frame_def f)
  have "receive_loop 0 receive_init dev (on_wire (f0 # f1 # f2 # f3 # f4 # fs)) =
           Inl (BUSY, dev\<lparr>data := (data dev)[0 := f0, 1 := f1, 2 := f2]\<rparr>)"
    using False assms(2,4) by (intro receive_loop_header_mode_busy len f1) (auto simp add: f)
  then show ?thesis by (simp add: receive_def f)
qed

lemma receive_busy_bus:
  assumes "array_sizes dev" "\<not> u_router dev" "is_frame f"
    and "u_shared dev" "CONTAINS_MODE_INFO (f ! 2)" "7 \<le> length f"
    and "\<exists>k<4. f ! (3 + k) \<noteq> bus_id dev ! k"
  shows "fst (receive dev (on_wire f)) = BUSY"
proof (cases "f ! 0 \<noteq> u_device_id dev \<and> f ! 0 \<noteq> BROADCAST")
  case True
  moreover have "f \<noteq> []" using assms(3) by (auto simp: is_frame_def)
  ultimately show ?thesis using assms(1,2) by (simp add: receive_busy_id)
next
  case False
  from assms(6) obtain f0 f1 f2 f3 f4 f5 f6 fs where f: "f = f0 # f1 # f2 # f3 # f4 # f5 # f6 # fs"
    using list_at_least_7 [of f] by auto
  have len: "2 < length (data dev)" "7 \<le> length (data dev)"
    using assms(1) by (simp_all add: array_sizes_def PACKET_MAX_LENGTH_def)
  have f1: "4 < unat f1" "unat f1 < PACKET_MAX_LENGTH" "7 \<le> unat f1"
    using assms(3,6) by (simp_all add: is_frame_def f)
  define L3 where "L3 = \<lparr>packet_length = unat f1, CRC = running_crc 0 [f0, f1, f2],
              shared = CONTAINS_MODE_INFO f2,
              packet_includes_sender_info = CONTAINS_SENDER_INFO f2,
              acknowledge_requested = CONTAINS_ACK_REQUEST f2\<rparr>"
  define dev3 where "dev3 = dev\<lparr>data := (data dev)[0 := f0, 1 := f1, 2 := f2]\<rparr>"
  have hdr: "receive_loop 0 receive_init dev (on_wire (f0 # f1 # f2 # ([f3, f4, f5, f6] @ fs))) =
      receive_loop 3 L3 dev3 (on_wire ([f3, f4, f5, f6] @ fs))"
    unfolding L3_def dev3_def
    using False assms(4,5) by (intro receive_loop_header len f1) (auto simp add: f)
  from assms(7) obtain k where k: "k < 4" "f ! (3 + k) \<noteq> bus_id dev ! k" by blast
  have "k = 0 \<or> k = 1 \<or> k = 2 \<or> k = 3"
    using k(1) by arith
  then have "[f3, f4, f5, f6] ! k = f ! (3 + k)"
    by (auto simp add: f)
  with k have ex: "\<exists>k<length [f3, f4, f5, f6]. [f3, f4, f5, f6] ! k \<noteq> bus_id dev3 ! (3 - 3 + k)"
    by (auto simp: dev3_def intro!: exI [of _ k])
  have "\<exists>d. receive_loop 3 L3 dev3 (on_wire ([f3, f4, f5, f6] @ fs)) = Inl (BUSY, d)"
    using assms(2,4,5) f1(3) len(2)
    by (intro receive_loop_bus_busy ex) (simp_all add: L3_def dev3_def f)
  with hdr show ?thesis by (auto simp add: receive_def f)
qed

text \<open>
  C4. For every inbound frame read by \<^verbatim>\<open>receive()\<close> on a non-router device, the result is
  \<^verbatim>\<open>BUSY\<close> when the frame's recipient id (byte 0) equals neither this device's id nor
  \<^verbatim>\<open>BROADCAST\<close>; \<^verbatim>\<open>BUSY\<close> when the frame's shared header bit differs from the device's
  shared flag; and, when both device and frame are shared, \<^verbatim>\<open>BUSY\<close> when any byte of the
  frame's recipient bus id (bytes 3..6) differs from the device's bus id. The bytes of
  the frame \<open>f\<close> all arrive; for the recipient id \<open>f\<close> is any non-empty sequence of bytes,
  for the header and the bus id it is a frame in the sense of \<open>is_frame\<close>, and for the bus
  id it holds the bytes 3..6.
\<close>

theorem address_filter:
  assumes "array_sizes dev" "\<not> u_router dev"
  shows "(f \<noteq> [] \<and> f ! 0 \<noteq> u_device_id dev \<and> f ! 0 \<noteq> BROADCAST
            \<longrightarrow> fst (receive dev (on_wire f)) = BUSY)
       \<and> (is_frame f \<and> CONTAINS_MODE_INFO (f ! 2) \<noteq> u_shared dev
            \<longrightarrow> fst (receive dev (on_wire f)) = BUSY)
       \<and> (is_frame f \<and> 7 \<le> length f \<and> u_shared dev \<and> CONTAINS_MODE_INFO (f ! 2)
            \<and> (\<exists>k<4. f ! (3 + k) \<noteq> bus_id dev ! k)
            \<longrightarrow> fst (receive dev (on_wire f)) = BUSY)"
  using assms receive_busy_id [of dev f] receive_busy_mode [of dev f] receive_busy_bus [of dev f]
  by blast

theorem address_filter_witness:
  "array_sizes shared_bus_12 \<and> \<not> u_router shared_bus_12
   \<and> is_frame [12, 5, 4, 0x40, 0] \<and> is_frame [12, 8, 5, 1, 1, 2, 1, 0]
   \<and> fst (receive shared_bus_12 (on_wire [99, 5, 5, 0x40, 0])) = BUSY
   \<and> fst (receive shared_bus_12 (on_wire [12, 5, 4, 0x40, 0])) = BUSY
   \<and> fst (receive shared_bus_12 (on_wire [12, 8, 5, 1, 1, 2, 1, 0])) = BUSY"
proof -
  have dev: "array_sizes shared_bus_12" "\<not> u_router shared_bus_12"
    by (simp_all add: array_sizes_def shared_bus_12_def pjon_consts)
  have fr: "is_frame [12, 5, 4, 0x40, 0]" "is_frame [12, 8, 5, 1, 1, 2, 1, 0]"
    by (simp_all add: is_frame_def pjon_consts)
  have ex: "\<exists>k<4. [12, 8, 5, 1, 1, 2, 1, 0::u8] ! (3 + k) \<noteq> bus_id shared_bus_12 ! k"
    by (rule exI [of _ 2]) (simp add: shared_bus_12_def)
  show ?thesis
    using dev fr ex
      address_filter [OF dev, of "[99, 5, 5, 0x40, 0]"]
      address_filter [OF dev, of "[12, 5, 4, 0x40, 0]"]
      address_filter [OF dev, of "[12, 8, 5, 1, 1, 2, 1, 0]"]
    by (simp add: shared_bus_12_def pjon_consts)
qed

text \<open>
  C2. For every CRC-valid frame accepted by \<^verbatim>\<open>receive()\<close>, the receive handler is invoked
  with the payload pointer \<^verbatim>\<open>data + payload_offset\<close> and with the payload length
  \<^verbatim>\<open>data[1] - payload_offset - 1\<close>, where \<^verbatim>\<open>data[1]\<close> is the frame's length field.

  The code computes the length from \<^verbatim>\<open>data[3]\<close> instead. The local bus 99 receives the frame
  \<open>63 05 04 40 50\<close> (hexadecimal) of scenario 1 of the specification: one payload byte
  \<open>0x40\<close>, the length field 5, the CRC \<open>0x50\<close>. The handler is called with the offset 3
  and the length \<open>0x40 - 3 - 1 = 60\<close>, where the length field gives \<open>5 - 3 - 1 = 1\<close>.
\<close>

theorem receive_passes_byte_3_as_length:
  "fst (receive local_bus_99 (on_wire [99, 5, 4, 0x40, crc8 [99, 5, 4, 0x40]])) = ACK
   \<and> receiver_log (snd (receive local_bus_99 (on_wire [99, 5, 4, 0x40, crc8 [99, 5, 4, 0x40]])))
       = [(3, 60, no_packet_info\<lparr>receiver_id := 99, header_info := 4\<rparr>)]"
  by code_simp

text \<open>
  C5. In \<^verbatim>\<open>receive()\<close>, after a full frame has been consumed, an \<^verbatim>\<open>ACK\<close> or \<^verbatim>\<open>NAK\<close> response is
  transmitted via \<^verbatim>\<open>send_response\<close> if and only if the frame's ack-request header bit is set,
  the frame's recipient id is not \<^verbatim>\<open>BROADCAST\<close>, the device's mode is not \<^verbatim>\<open>SIMPLEX\<close>, and
  either the device is not shared or the frame's recipient bus id equals the device's bus
  id.

  On the \<^verbatim>\<open>NAK\<close> path the code compares the device's bus id with the bus id kept in
  \<^verbatim>\<open>last_packet_info\<close>, which \<^verbatim>\<open>get_packet_info\<close> fills on the \<^verbatim>\<open>ACK\<close> path only. The bus 12
  on 1.1.1.1, which has not accepted a packet yet, receives a frame for device 12 on bus
  1.1.1.1 with the ack-request bit set and a wrong CRC byte: the frame is consumed, the
  result is \<^verbatim>\<open>NAK\<close>, and no response is transmitted. The same bus as a router, after it has
  accepted a frame for its own bus, receives such a frame for device 12 on bus 2.2.2.2:
  the result is \<^verbatim>\<open>NAK\<close>, and \<^verbatim>\<open>NAK\<close> is transmitted.
\<close>

theorem receive_sends_no_nak_to_own_bus:
  "crc8 [12, 8, 5, 1, 1, 1, 1] \<noteq> 0
   \<and> fst (receive shared_bus_12 (on_wire [12, 8, 5, 1, 1, 1, 1, 0])) = NAK
   \<and> strategy_log (snd (receive shared_bus_12 (on_wire [12, 8, 5, 1, 1, 1, 1, 0]))) = []
   \<and> crc8 [12, 8, 5, 2, 2, 2, 2] \<noteq> 0
   \<and> fst (receive router_bus_12 (on_wire [12, 8, 5, 1, 1, 1, 1, crc8 [12, 8, 5, 1, 1, 1, 1]])) = ACK
   \<and> strategy_log (snd (receive router_bus_12
         (on_wire [12, 8, 5, 1, 1, 1, 1, crc8 [12, 8, 5, 1, 1, 1, 1]]))) = [Send_response ACK]
   \<and> fst (receive
         (snd (receive router_bus_12 (on_wire [12, 8, 5, 1, 1, 1, 1, crc8 [12, 8, 5, 1, 1, 1, 1]])))
         (on_wire [12, 8, 5, 2, 2, 2, 2, 0])) = NAK
   \<and> strategy_log (snd (receive
         (snd (receive router_bus_12 (on_wire [12, 8, 5, 1, 1, 1, 1, crc8 [12, 8, 5, 1, 1, 1, 1]])))
         (on_wire [12, 8, 5, 2, 2, 2, 2, 0]))) = [Send_response ACK, Send_response NAK]"
  by code_simp

lemma receive_step_Inl_code:
  "receive_step i st L dev = Inl (c, d) \<Longrightarrow> c = FAIL \<or> c = BUSY"
  by (auto simp add: receive_step_def Let_def split: if_splits)

lemma receive_step_Inr:
  assumes "receive_step i st L dev = Inr (L1, dev1)"
  shows "dev1 = dev\<lparr>data := (data dev)[i := ucast st]\<rparr>"
    and "i \<noteq> 1 \<Longrightarrow> packet_length L1 = packet_length L"
    and "i = 1 \<Longrightarrow> 4 < packet_length L1"
    and "i = 2 \<Longrightarrow> shared L1 = CONTAINS_MODE_INFO (data dev1 ! 2)
           \<and> acknowledge_requested L1 = CONTAINS_ACK_REQUEST (data dev1 ! 2)"
    and "i \<noteq> 2 \<Longrightarrow> shared L1 = shared L \<and> acknowledge_requested L1 = acknowledge_requested L"
  using assms by (auto simp add: receive_step_def Let_def split: if_splits)

lemma receive_loop_Inl_code:
  "receive_loop i L dev wire = Inl (c, d) \<Longrightarrow> c = FAIL \<or> c = BUSY"
proof (induction wire arbitrary: i L dev)
  case Nil
  then show ?case
    by (auto simp add: receive_loop.simps dest: receive_step_Inl_code split: if_splits)
next
  case (Cons st wire)
  then show ?case
    by (auto simp add: receive_loop.simps dest: receive_step_Inl_code
        split: if_splits sum.splits prod.splits)
qed

lemma receive_loop_Inr_dev:
  "receive_loop i L dev wire = Inr (L', dev') \<Longrightarrow> dev' = dev\<lparr>data := data dev'\<rparr>"
proof (induction wire arbitrary: i L dev)
  case Nil
  then show ?case
    by (auto simp add: receive_loop.simps receive_step_def Let_def FAIL_def split: if_splits)
next
  case (Cons st wire)
  show ?case
  proof (cases "i < packet_length L")
    case False
    with Cons.prems show ?thesis by (simp add: receive_loop.simps)
  next
    case True
    with Cons.prems obtain L1 dev1 where
      st: "receive_step i st L dev = Inr (L1, dev1)" and
      rest: "receive_loop (i + 1) L1 dev1 wire = Inr (L', dev')"
      by (auto simp add: receive_loop.simps split: sum.splits prod.splits)
    from Cons.IH [OF rest] have "dev' = dev1\<lparr>data := data dev'\<rparr>" .
    moreover have "dev1 = dev\<lparr>data := (data dev)[i := ucast st]\<rparr>"
      using st by (rule receive_step_Inr)
    ultimately show ?thesis
      by (metis PJON.surjective PJON.update_convs(1))
  qed
qed

lemma receive_loop_flags:
  assumes "receive_loop i L dev wire = Inr (L', dev')"
    and "2 < length (data dev)"
    and "(i \<le> 1 \<and> packet_length L = PACKET_MAX_LENGTH) \<or> (i = 2 \<and> 4 < packet_length L)
         \<or> (2 < i \<and> 4 < packet_length L \<and> shared L = CONTAINS_MODE_INFO (data dev ! 2)
               \<and> acknowledge_requested L = CONTAINS_ACK_REQUEST (data dev ! 2))"
  shows "4 < packet_length L' \<and> shared L' = CONTAINS_MODE_INFO (data dev' ! 2)
         \<and> acknowledge_requested L' = CONTAINS_ACK_REQUEST (data dev' ! 2)"
  using assms
proof (induction wire arbitrary: i L dev)
  case Nil
  then show ?case
    by (auto simp add: receive_loop.simps receive_step_def Let_def FAIL_def PACKET_MAX_LENGTH_def
        split: if_splits)
next
  case (Cons st wire)
  show ?case
  proof (cases "i < packet_length L")
    case False
    with Cons.prems show ?thesis
      by (auto simp add: receive_loop.simps PACKET_MAX_LENGTH_def)
  next
    case True
    with Cons.prems(1) obtain L1 dev1 where
      st: "receive_step i st L dev = Inr (L1, dev1)" and
      rest: "receive_loop (i + 1) L1 dev1 wire = Inr (L', dev')"
      by (auto simp add: receive_loop.simps split: sum.splits prod.splits)
    note r = receive_step_Inr [OF st]
    have len: "2 < length (data dev1)"
      using Cons.prems(2) by (simp add: r(1))
    have keep: "2 < i \<Longrightarrow> data dev1 ! 2 = data dev ! 2"
      by (simp add: r(1))
    have inv: "(i + 1 \<le> 1 \<and> packet_length L1 = PACKET_MAX_LENGTH)
         \<or> (i + 1 = 2 \<and> 4 < packet_length L1)
         \<or> (2 < i + 1 \<and> 4 < packet_length L1 \<and> shared L1 = CONTAINS_MODE_INFO (data dev1 ! 2)
               \<and> acknowledge_requested L1 = CONTAINS_ACK_REQUEST (data dev1 ! 2))"
    proof -
      consider "i = 0" | "i = 1" | "i = 2" | "2 < i" by arith
      then show ?thesis
      proof cases
        case 1
        with Cons.prems(3) r(2) show ?thesis by simp
      next
        case 2
        with r(3) show ?thesis by simp
      next
        case 3
        with Cons.prems(3) r(2,4) show ?thesis by simp
      next
        case 4
        with Cons.prems(3) r(2,5) keep show ?thesis by simp
      qed
    qed
    from Cons.IH [OF rest len inv] show ?thesis .
  qed
qed

lemma receive_loop_data:
  assumes "receive_loop i L dev wire = Inr (L', dev')"
  shows "(\<forall>j<i. data dev' ! j = data dev ! j)
       \<and> (\<forall>k. i + k < packet_length L' \<and> i + k < length (data dev)
              \<longrightarrow> k < length wire \<and> data dev' ! (i + k) = ucast (wire ! k))"
  using assms
proof (induction wire arbitrary: i L dev)
  case Nil
  then show ?case
    by (auto simp add: receive_loop.simps receive_step_def Let_def FAIL_def split: if_splits)
next
  case (Cons st wire)
  show ?case
  proof (cases "i < packet_length L")
    case False
    with Cons.prems show ?thesis
      by (auto simp add: receive_loop.simps)
  next
    case True
    with Cons.prems(1) obtain L1 dev1 where
      st: "receive_step i st L dev = Inr (L1, dev1)" and
      rest: "receive_loop (i + 1) L1 dev1 wire = Inr (L', dev')"
      by (auto simp add: receive_loop.simps split: sum.splits prod.splits)
    have d1: "dev1 = dev\<lparr>data := (data dev)[i := ucast st]\<rparr>"
      using st by (rule receive_step_Inr)
    from Cons.IH [OF rest] have
      old: "\<And>j. j < i + 1 \<Longrightarrow> data dev' ! j = data dev1 ! j" and
      new: "\<And>k. i + 1 + k < packet_length L' \<Longrightarrow> i + 1 + k < length (data dev1)
              \<Longrightarrow> k < length wire \<and> data dev' ! (i + 1 + k) = ucast (wire ! k)"
      by blast+
    have "data dev' ! j = data dev ! j" if "j < i" for j
      using old [of j] that by (simp add: d1)
    moreover have "k < length (st # wire) \<and> data dev' ! (i + k) = ucast ((st # wire) ! k)"
      if "i + k < packet_length L'" "i + k < length (data dev)" for k
    proof (cases k)
      case 0
      with old [of i] that show ?thesis by (simp add: d1)
    next
      case (Suc k')
      with new [of k'] that show ?thesis by (simp add: d1)
    qed
    ultimately show ?thesis by blast
  qed
qed

text \<open>
  C10. When \<^verbatim>\<open>receive()\<close> consumes a full frame whose rolling CRC is nonzero (the result
  \<^verbatim>\<open>NAK\<close>), \<^verbatim>\<open>last_packet_info\<close> is left unchanged, and the test that gates sending the \<^verbatim>\<open>NAK\<close>
  on a shared device compares the device's bus id with the receiver bus id that
  \<^verbatim>\<open>last_packet_info\<close> held before the call, parsed from a packet accepted earlier, not with
  the one of the current frame. The ack-request bit, the shared bit and the recipient id
  are the current frame's.
\<close>

theorem nak_compares_previous_packet_info:
  assumes "array_sizes dev" "fst (receive dev wire) = NAK"
  shows "last_packet_info (snd (receive dev wire)) = last_packet_info dev
       \<and> strategy_log (snd (receive dev wire)) = strategy_log dev @
           (if CONTAINS_ACK_REQUEST (ucast (wire ! 2))
               \<and> (ucast (wire ! 0) :: u8) \<noteq> BROADCAST \<and> u_mode dev \<noteq> SIMPLEX
               \<and> (\<not> u_shared dev \<or> (CONTAINS_MODE_INFO (ucast (wire ! 2))
                    \<and> bus_id_equality (receiver_bus_id (last_packet_info dev)) (bus_id dev)))
            then [Send_response NAK] else [])"
proof -
  have codes: "NAK \<noteq> FAIL" "NAK \<noteq> BUSY" "(NAK :: u16) \<noteq> ACK"
    by (simp_all add: pjon_consts)
  from assms(2) obtain L dev' where
    loop: "receive_loop 0 receive_init dev wire = Inr (L, dev')"
    using codes(1,2) receive_loop_Inl_code [of 0 receive_init dev wire]
    by (cases "receive_loop 0 receive_init dev wire")
       (auto simp add: receive_def split: prod.splits)
  with assms(2) codes(3) have crc: "CRC L \<noteq> 0"
    by (auto simp add: receive_def receive_finish_def Let_def split: if_splits)
  have len: "2 < length (data dev)" "length (data dev) = 50"
    using assms(1) by (simp_all add: array_sizes_def PACKET_MAX_LENGTH_def)
  have fl: "4 < packet_length L" "shared L = CONTAINS_MODE_INFO (data dev' ! 2)"
    "acknowledge_requested L = CONTAINS_ACK_REQUEST (data dev' ! 2)"
    using receive_loop_flags [OF loop len(1)] by (simp_all add: receive_init_def)
  have dat: "data dev' ! k = ucast (wire ! k)" if "k < 5" for k
  proof -
    have "0 + k < packet_length L \<and> 0 + k < length (data dev)"
      using that fl(1) len(2) by simp
    with receive_loop_data [OF loop] have "data dev' ! (0 + k) = ucast (wire ! k)"
      by blast
    then show ?thesis by simp
  qed
  have d0: "data dev' ! 0 = ucast (wire ! 0)"
    by (rule dat) simp
  have d2: "data dev' ! 2 = ucast (wire ! 2)"
    by (rule dat) simp
  have dev': "dev' = dev\<lparr>data := data dev'\<rparr>"
    using loop by (rule receive_loop_Inr_dev)
  have same: "last_packet_info dev' = last_packet_info dev" "strategy_log dev' = strategy_log dev"
    "u_mode dev' = u_mode dev" "u_shared dev' = u_shared dev" "bus_id dev' = bus_id dev"
    by (subst dev', simp)+
  show ?thesis
    using crc by (simp add: receive_def loop receive_finish_def fl(2,3) d0 d2 same)
qed

theorem nak_compares_previous_packet_info_witness:
  "array_sizes shared_bus_12
   \<and> fst (receive shared_bus_12 (on_wire [12, 8, 5, 1, 1, 1, 1, 0])) = NAK
   \<and> last_packet_info (snd (receive shared_bus_12 (on_wire [12, 8, 5, 1, 1, 1, 1, 0])))
       = no_packet_info
   \<and> strategy_log (snd (receive shared_bus_12 (on_wire [12, 8, 5, 1, 1, 1, 1, 0]))) = []"
proof -
  have sizes: "array_sizes shared_bus_12"
    by (simp add: array_sizes_def shared_bus_12_def pjon_consts)
  have nak: "fst (receive shared_bus_12 (on_wire [12, 8, 5, 1, 1, 1, 1, 0])) = NAK"
    by code_simp
  have "\<not> bus_id_equality (receiver_bus_id (last_packet_info shared_bus_12)) (bus_id shared_bus_12)"
    by (simp add: bus_id_equality_def shared_bus_12_def no_packet_info_def)
  then show ?thesis
    using sizes nak nak_compares_previous_packet_info [OF sizes nak]
    by (simp add: shared_bus_12_def)
qed

subsection \<open>Sending a frame\<close>

lemma fold_send_byte_crc:
  "fold send_byte_crc bs (crc, dev) =
     (running_crc crc bs, dev\<lparr>strategy_log := strategy_log dev @ map Send_byte bs\<rparr>)"
  by (induction bs arbitrary: crc dev) (simp_all add: send_byte_crc_def)

lemma send_string_transmits:
  assumes "u_mode dev = SIMPLEX \<or> can_start env"
  shows "send_string dev env id_arg (Some str) len h =
     (let dev1 = dev\<lparr>strategy_log := strategy_log dev @ map Send_byte (frame id_arg len h str)\<rparr>
      in if \<not> u_acknowledge dev \<or> id_arg = BROADCAST \<or> u_mode dev = SIMPLEX then (ACK, dev1)
         else if response env = ACK then (ACK, dev1)
         else if response env = FAIL then (FAIL, dev1)
         else (if response env = NAK then NAK else FAIL,
               dev1\<lparr>strategy_log := strategy_log dev1 @
                  [Delay_microseconds (random 0 COLLISION_MAX_DELAY (random_raw env))]\<rparr>))"
proof -
  have s4: "fold send_byte_crc (string_bytes str len)
              (send_byte_crc h (send_byte_crc (len + 4) (send_byte_crc id_arg (0, dev)))) =
            (crc8 (frame_body id_arg len h str),
             dev\<lparr>strategy_log := strategy_log dev @ map Send_byte (frame_body id_arg len h str)\<rparr>)"
    by (simp add: send_byte_crc_def fold_send_byte_crc frame_body_def crc8_def running_crc_append)
  have nf: "(NAK :: u16) \<noteq> FAIL" by (simp add: NAK_def FAIL_def)
  have go: "\<not> (u_mode dev \<noteq> SIMPLEX \<and> \<not> can_start env)"
    using assms by blast
  show ?thesis
    using nf by (simp add: send_string_def Let_def s4 frame_def go)
qed

text \<open>What \<^verbatim>\<open>send_string\<close> transmits for a content of 1 to 45 bytes is a frame.\<close>

lemma length_string_bytes: "length (string_bytes str len) = unat len"
  by (simp add: string_bytes_def)

lemma frame_is_frame:
  assumes "0 < unat len" "unat len < 46"
  shows "is_frame (frame id_arg len h str)"
proof -
  have "unat (len + 4) = unat len + 4"
    using assms(2) by (simp add: unat_word_ariths)
  then show ?thesis
    using assms
    by (simp add: is_frame_def frame_def frame_body_def length_string_bytes PACKET_MAX_LENGTH_def)
qed

lemma random_bound: "lo < hi \<Longrightarrow> lo \<le> random lo hi raw \<and> random lo hi raw < hi"
proof -
  assume "lo < hi"
  then have "raw mod (hi - lo) < hi - lo" by simp
  with \<open>lo < hi\<close> have "lo + raw mod (hi - lo) < hi" by arith
  with \<open>lo < hi\<close> show ?thesis by (simp add: random_def)
qed

text \<open>
  C3, as the code has it. In \<^verbatim>\<open>send_string\<close>, when an acknowledgement is awaited and the
  strategy's response is not \<^verbatim>\<open>ACK\<close>: a \<^verbatim>\<open>NAK\<close> response causes a delay of
  \<^verbatim>\<open>random(0, COLLISION_MAX_DELAY)\<close> microseconds, which is less than \<^verbatim>\<open>COLLISION_MAX_DELAY\<close>,
  followed by return \<^verbatim>\<open>NAK\<close>; every other response except \<^verbatim>\<open>FAIL\<close> causes the same delay
  followed by return \<^verbatim>\<open>FAIL\<close>; the response \<^verbatim>\<open>FAIL\<close> causes return \<^verbatim>\<open>FAIL\<close> with no delay.
  In each case the frame has been transmitted before.
\<close>

theorem send_string_awaited_response:
  assumes "can_start env" "u_acknowledge dev" "id_arg \<noteq> BROADCAST" "u_mode dev \<noteq> SIMPLEX"
    and "response env \<noteq> ACK"
  shows "(response env = NAK \<longrightarrow>
            (\<exists>d < COLLISION_MAX_DELAY. send_string dev env id_arg (Some str) len h =
               (NAK, dev\<lparr>strategy_log := strategy_log dev @ map Send_byte (frame id_arg len h str)
                                           @ [Delay_microseconds d]\<rparr>)))
       \<and> (response env \<noteq> NAK \<and> response env \<noteq> FAIL \<longrightarrow>
            (\<exists>d < COLLISION_MAX_DELAY. send_string dev env id_arg (Some str) len h =
               (FAIL, dev\<lparr>strategy_log := strategy_log dev @ map Send_byte (frame id_arg len h str)
                                           @ [Delay_microseconds d]\<rparr>)))
       \<and> (response env = FAIL \<longrightarrow>
            send_string dev env id_arg (Some str) len h =
               (FAIL, dev\<lparr>strategy_log := strategy_log dev @ map Send_byte (frame id_arg len h str)\<rparr>))"
proof -
  define d where "d = random 0 COLLISION_MAX_DELAY (random_raw env)"
  have d: "d < COLLISION_MAX_DELAY"
    using random_bound [of 0 COLLISION_MAX_DELAY] by (simp add: COLLISION_MAX_DELAY_def d_def)
  have nf: "(NAK :: u16) \<noteq> FAIL" by (simp add: pjon_consts)
  have start: "u_mode dev = SIMPLEX \<or> can_start env"
    using assms(1) by simp
  note eq = send_string_transmits [OF start, of id_arg str len h]
  have 1: "\<exists>d < COLLISION_MAX_DELAY. send_string dev env id_arg (Some str) len h =
               (NAK, dev\<lparr>strategy_log := strategy_log dev @ map Send_byte (frame id_arg len h str)
                                           @ [Delay_microseconds d]\<rparr>)"
    if "response env = NAK"
    using that assms(2-5) nf d by (intro exI [of _ d]) (simp add: eq Let_def d_def)
  have 2: "\<exists>d < COLLISION_MAX_DELAY. send_string dev env id_arg (Some str) len h =
               (FAIL, dev\<lparr>strategy_log := strategy_log dev @ map Send_byte (frame id_arg len h str)
                                           @ [Delay_microseconds d]\<rparr>)"
    if "response env \<noteq> NAK" "response env \<noteq> FAIL"
    using that assms(2-5) d by (intro exI [of _ d]) (simp add: eq Let_def d_def)
  have 3: "send_string dev env id_arg (Some str) len h =
               (FAIL, dev\<lparr>strategy_log := strategy_log dev @ map Send_byte (frame id_arg len h str)\<rparr>)"
    if "response env = FAIL"
    using that assms(2-5) by (simp add: eq Let_def)
  from 1 2 3 show ?thesis by blast
qed

theorem send_string_awaited_response_witness:
  "can_start \<lparr>can_start = True, response = NAK, random_raw = 7\<rparr>
   \<and> u_acknowledge local_bus_99 \<and> (12 :: u8) \<noteq> BROADCAST \<and> u_mode local_bus_99 \<noteq> SIMPLEX
   \<and> (NAK :: u16) \<noteq> ACK \<and> (0 :: u16) \<noteq> ACK \<and> FAIL \<noteq> ACK
   \<and> fst (send_string local_bus_99 \<lparr>can_start = True, response = NAK, random_raw = 7\<rparr>
             12 (Some [0x40]) 1 4) = NAK
   \<and> fst (send_string local_bus_99 \<lparr>can_start = True, response = 0, random_raw = 7\<rparr>
             12 (Some [0x40]) 1 4) = FAIL
   \<and> send_string local_bus_99 \<lparr>can_start = True, response = FAIL, random_raw = 7\<rparr>
        12 (Some [0x40]) 1 4 =
       (FAIL, local_bus_99\<lparr>strategy_log := strategy_log local_bus_99 @
                map Send_byte (frame 12 1 4 [0x40])\<rparr>)"
proof -
  have dev: "u_acknowledge local_bus_99" "(12 :: u8) \<noteq> BROADCAST" "u_mode local_bus_99 \<noteq> SIMPLEX"
    by (simp_all add: local_bus_99_def pjon_consts)
  have r: "(NAK :: u16) \<noteq> ACK" "(0 :: u16) \<noteq> ACK" "FAIL \<noteq> ACK" "(0 :: u16) \<noteq> NAK"
    "(0 :: u16) \<noteq> FAIL"
    by (simp_all add: pjon_consts)
  show ?thesis
    using dev r
      send_string_awaited_response [of "\<lparr>can_start = True, response = NAK, random_raw = 7\<rparr>"
        local_bus_99 12 "[0x40]" 1 4]
      send_string_awaited_response [of "\<lparr>can_start = True, response = 0, random_raw = 7\<rparr>"
        local_bus_99 12 "[0x40]" 1 4]
      send_string_awaited_response [of "\<lparr>can_start = True, response = FAIL, random_raw = 7\<rparr>"
        local_bus_99 12 "[0x40]" 1 4]
    by auto
qed

text \<open>
  C3 as stated fails for the response \<^verbatim>\<open>FAIL\<close>: the local bus 99 sends one byte to device 12
  with an acknowledgement awaited, \<^verbatim>\<open>receive_response\<close> returns \<^verbatim>\<open>FAIL\<close>, and \<^verbatim>\<open>send_string\<close>
  returns \<^verbatim>\<open>FAIL\<close> without any call of \<^verbatim>\<open>delayMicroseconds\<close>: its calls are the five
  \<^verbatim>\<open>send_byte\<close> of the frame.
\<close>

theorem send_string_fail_response_no_delay:
  "u_acknowledge local_bus_99 \<and> (12 :: u8) \<noteq> BROADCAST \<and> u_mode local_bus_99 \<noteq> SIMPLEX
   \<and> FAIL \<noteq> ACK
   \<and> send_string local_bus_99 \<lparr>can_start = True, response = FAIL, random_raw = 7\<rparr>
         12 (Some [0x40]) 1 4 =
       (FAIL, local_bus_99\<lparr>strategy_log :=
          [Send_byte 12, Send_byte 5, Send_byte 4, Send_byte 0x40,
           Send_byte (crc8 [12, 5, 4, 0x40])]\<rparr>)"
proof -
  have "send_string local_bus_99 \<lparr>can_start = True, response = FAIL, random_raw = 7\<rparr>
             12 (Some [0x40]) 1 4 =
        (FAIL, local_bus_99\<lparr>strategy_log :=
           [Send_byte 12, Send_byte 5, Send_byte 4, Send_byte 0x40,
            Send_byte (crc8 [12, 5, 4, 0x40])]\<rparr>)"
    by code_simp
  then show ?thesis
    by (simp add: local_bus_99_def pjon_consts)
qed

subsection \<open>The queue\<close>

declare dispatch_loop.simps [simp del]

lemma dispatch_loop_full:
  assumes "\<forall>j. i \<le> j \<and> j < MAX_PACKETS \<longrightarrow> state (packets dev ! j) \<noteq> 0"
  shows "dispatch_loop i fill dev =
           (FAIL, call_error PACKETS_BUFFER_FULL (of_nat MAX_PACKETS) dev)"
  using assms
proof (induction i fill dev rule: dispatch_loop.induct)
  case (1 i fill dev)
  show ?case
  proof (cases "i < MAX_PACKETS")
    case False
    then show ?thesis by (subst dispatch_loop.simps) simp
  next
    case True
    with "1.prems" have busy: "state (packets dev ! i) \<noteq> 0" by simp
    have "dispatch_loop (i + 1) fill dev =
            (FAIL, call_error PACKETS_BUFFER_FULL (of_nat MAX_PACKETS) dev)"
      using "1.prems" by (intro "1.IH" True busy) simp
    with True busy show ?thesis by (subst dispatch_loop.simps) simp
  qed
qed

text \<open>
  C8, as the code has it. When every one of the \<^verbatim>\<open>MAX_PACKETS\<close> queue slots is non-\<^verbatim>\<open>FREE\<close>,
  \<^verbatim>\<open>dispatch\<close> (and hence \<^verbatim>\<open>send\<close> and \<^verbatim>\<open>send_repeatedly\<close>) with an in-range length whose
  buffer allocation succeeds returns \<^verbatim>\<open>FAIL\<close> and invokes the error callback exactly once,
  with code \<^verbatim>\<open>PACKETS_BUFFER_FULL\<close> and data \<^verbatim>\<open>MAX_PACKETS\<close>.
\<close>

theorem dispatch_buffer_full:
  assumes "\<forall>j < MAX_PACKETS. state (packets dev ! j) \<noteq> 0"
    and "unat (if u_shared dev
               then len + (if u_include_sender_info dev then 9 else 4)
               else len + (if u_include_sender_info dev then 1 else 0)) < PACKET_MAX_LENGTH"
    and "malloc_ok env"
  shows "dispatch dev env id_arg b_id packet len timing_arg custom_header =
           (FAIL, dev\<lparr>error_log := error_log dev @ [(PACKETS_BUFFER_FULL, of_nat MAX_PACKETS)]\<rparr>)
       \<and> send dev env id_arg packet len =
           (FAIL, dev\<lparr>error_log := error_log dev @ [(PACKETS_BUFFER_FULL, of_nat MAX_PACKETS)]\<rparr>)
       \<and> send_repeatedly dev env id_arg packet len timing_arg =
           (FAIL, dev\<lparr>error_log := error_log dev @ [(PACKETS_BUFFER_FULL, of_nat MAX_PACKETS)]\<rparr>)"
proof -
  have full: "dispatch_loop 0 fill dev =
           (FAIL, call_error PACKETS_BUFFER_FULL (of_nat MAX_PACKETS) dev)" for fill
    using assms(1) by (intro dispatch_loop_full) simp
  have "dispatch dev env id_arg b_id packet len timing_arg custom_header =
           (FAIL, dev\<lparr>error_log := error_log dev @ [(PACKETS_BUFFER_FULL, of_nat MAX_PACKETS)]\<rparr>)"
    for b_id timing_arg custom_header
    using assms(2,3) by (simp add: dispatch_def Let_def full call_error_def)
  then show ?thesis
    by (simp add: send_def send_repeatedly_def)
qed

theorem dispatch_buffer_full_witness:
  "0 \<notin> set (map state (packets full_bus_99))
   \<and> malloc_ok \<lparr>malloc_ok = True, micros = 0\<rparr>
   \<and> dispatch full_bus_99 \<lparr>malloc_ok = True, micros = 0\<rparr> 12 [0, 0, 0, 0] [0x40] 1 0 0 =
        (FAIL, full_bus_99\<lparr>error_log := [(102, 10)]\<rparr>)
   \<and> send full_bus_99 \<lparr>malloc_ok = True, micros = 0\<rparr> 12 [0x40] 1 =
        (FAIL, full_bus_99\<lparr>error_log := [(102, 10)]\<rparr>)
   \<and> send_repeatedly full_bus_99 \<lparr>malloc_ok = True, micros = 0\<rparr> 12 [0x40] 1 1000000 =
        (FAIL, full_bus_99\<lparr>error_log := [(102, 10)]\<rparr>)"
proof -
  have slots: "\<forall>j < MAX_PACKETS. state (packets full_bus_99 ! j) \<noteq> 0"
    by (simp add: full_bus_99_def busy_slot_def pjon_consts)
  have len: "unat (if u_shared full_bus_99
               then 1 + (if u_include_sender_info full_bus_99 then 9 else 4)
               else 1 + (if u_include_sender_info full_bus_99 then 1 else 0) :: u8)
             < PACKET_MAX_LENGTH"
    by (simp add: full_bus_99_def local_bus_99_def pjon_consts)
  have ok: "malloc_ok \<lparr>malloc_ok = True, micros = 0\<rparr>"
    by simp
  show ?thesis
    using dispatch_buffer_full [OF slots len ok, of 12 "[0, 0, 0, 0]" "[0x40]" 0 0]
      dispatch_buffer_full [OF slots len ok, of 12 "[0, 0, 0, 0]" "[0x40]" 1000000 0]
    by (simp add: full_bus_99_def local_bus_99_def busy_slot_def pjon_consts)
qed

text \<open>
  C8 as stated fails when \<^verbatim>\<open>malloc\<close> returns no buffer: with every slot taken and a length in
  range, \<^verbatim>\<open>dispatch\<close> returns \<^verbatim>\<open>FAIL\<close> after one call of the error callback with
  \<^verbatim>\<open>MEMORY_FULL\<close> and 0, and none with \<^verbatim>\<open>PACKETS_BUFFER_FULL\<close>: the allocation is tested before
  the queue is searched.
\<close>

theorem dispatch_memory_full_before_buffer_full:
  "0 \<notin> set (map state (packets full_bus_99))
   \<and> dispatch full_bus_99 \<lparr>malloc_ok = False, micros = 0\<rparr> 12 [0, 0, 0, 0] [0x40] 1 0 0 =
        (FAIL, full_bus_99\<lparr>error_log := [(MEMORY_FULL, 0)]\<rparr>)
   \<and> (PACKETS_BUFFER_FULL, of_nat MAX_PACKETS) \<notin> set (error_log (snd
          (dispatch full_bus_99 \<lparr>malloc_ok = False, micros = 0\<rparr> 12 [0, 0, 0, 0] [0x40] 1 0 0)))"
proof -
  have "dispatch full_bus_99 \<lparr>malloc_ok = False, micros = 0\<rparr> 12 [0, 0, 0, 0] [0x40] 1 0 0 =
        (FAIL, full_bus_99\<lparr>error_log := [(MEMORY_FULL, 0)]\<rparr>)"
    by (simp add: dispatch_def call_error_def full_bus_99_def local_bus_99_def pjon_consts)
  then show ?thesis
    by (simp add: full_bus_99_def busy_slot_def pjon_consts)
qed

subsection \<open>The scheduler\<close>

































end
